theory Spec2Isabelle
  imports Main "HOL-Library.Word"
begin

section \<open>Machine integers and errors\<close>

text \<open>
  The identifiers of \<^verbatim>\<open>IdGenerator\<close> are \<^verbatim>\<open>unsigned int\<close>, those of the legacy
  classes are \<^verbatim>\<open>int\<close>. Both are 32-bit words; an \<^verbatim>\<open>int\<close> is read with \<open>sint\<close> and
  compared with the signed orders \<open><s\<close> and \<open>\<le>s\<close>. The increment of an \<^verbatim>\<open>int\<close> is the
  addition of the word: below \<^verbatim>\<open>INT_MAX\<close> it is the increment of C++, and at
  \<^verbatim>\<open>INT_MAX\<close>, where C++ leaves the behaviour undefined, it is the two's complement wrap.
\<close>

type_synonym unsigned_int = "32 word"
type_synonym c_int = "32 word"

text \<open>\<^verbatim>\<open>std::numeric_limits<unsigned int>::max()\<close>\<close>

definition unsigned_int_max :: unsigned_int where
  "unsigned_int_max = 4294967295"

text \<open>
  The exceptions of the source, one constructor for each \<^verbatim>\<open>throw\<close>:
  \<^item> \<open>InvalidCapacity\<close>: \<^verbatim>\<open>std::invalid_argument("max_value must be greater than 0")\<close>,
    thrown by the constructor of \<^verbatim>\<open>BoundedUniqueIDGenerator\<close>;
  \<^item> \<open>CapacityExhausted\<close>: \<^verbatim>\<open>std::runtime_error("Maximum ID limit reached")\<close>, thrown by
    \<^verbatim>\<open>BoundedUniqueIDGenerator::get_id\<close>;
  \<^item> \<open>InvalidReclaim\<close>: \<^verbatim>\<open>std::invalid_argument("Invalid or already reclaimed ID")\<close>,
    thrown by \<^verbatim>\<open>reclaim_id\<close> of \<^verbatim>\<open>UniqueIDGenerator\<close> and of
    \<^verbatim>\<open>BoundedUniqueIDGenerator\<close> (one revision of the latter appends the identifier
    to the message).
  The message of an exception is not modelled.
  A member function that can throw returns its outcome together with the state of the
  object after the call, so that what a failed call leaves behind is part of the model.
\<close>

datatype error = InvalidCapacity | CapacityExhausted | InvalidReclaim

section \<open>\<^verbatim>\<open>IdGenerator\<close>: the unbounded allocator, lenient reclaim\<close>

text \<open>
  A \<^verbatim>\<open>std::queue\<close> is a list whose head is the front: \<^verbatim>\<open>push\<close> appends,
  \<^verbatim>\<open>front\<close> and \<^verbatim>\<open>pop\<close> read and drop the head. A \<^verbatim>\<open>std::unordered_set\<close> is a set.
  The calls to the logger do not touch the allocator and are left out.
\<close>

record IdGenerator =
  next_id :: unsigned_int
  used_ids :: "unsigned_int set"
  reclaimed_ids :: "unsigned_int list"

definition IdGenerator_init :: IdGenerator where
  "IdGenerator_init =
     \<lparr>IdGenerator.next_id = 0, IdGenerator.used_ids = {}, IdGenerator.reclaimed_ids = []\<rparr>"

definition IdGenerator_get_id :: "IdGenerator \<Rightarrow> unsigned_int \<times> IdGenerator" where
  "IdGenerator_get_id g =
     (if IdGenerator.reclaimed_ids g \<noteq> [] then
        (let ident = hd (IdGenerator.reclaimed_ids g);
             g1 = g\<lparr>IdGenerator.reclaimed_ids := tl (IdGenerator.reclaimed_ids g)\<rparr>
         in (ident, g1\<lparr>IdGenerator.used_ids := insert ident (IdGenerator.used_ids g1)\<rparr>))
      else
        (let ident = IdGenerator.next_id g;
             g1 = g\<lparr>IdGenerator.next_id := IdGenerator.next_id g + 1\<rparr>;
             g2 = (if IdGenerator.next_id g1 = unsigned_int_max
                   then g1\<lparr>IdGenerator.next_id := 0\<rparr> else g1)
         in (ident, g2\<lparr>IdGenerator.used_ids := insert ident (IdGenerator.used_ids g2)\<rparr>)))"

definition IdGenerator_reclaim_id :: "IdGenerator \<Rightarrow> unsigned_int \<Rightarrow> IdGenerator" where
  "IdGenerator_reclaim_id g ident =
     (if ident \<in> IdGenerator.used_ids g then
        g\<lparr>IdGenerator.used_ids := IdGenerator.used_ids g - {ident},
          IdGenerator.reclaimed_ids := IdGenerator.reclaimed_ids g @ [ident]\<rparr>
      else g)"

definition IdGenerator_is_used :: "IdGenerator \<Rightarrow> unsigned_int \<Rightarrow> bool" where
  "IdGenerator_is_used g ident \<longleftrightarrow> ident \<in> IdGenerator.used_ids g"

text \<open>\<open>n\<close> calls of \<^verbatim>\<open>get_id\<close> in a row: the identifiers in order, and the allocator left.\<close>

fun IdGenerator_get_ids :: "nat \<Rightarrow> IdGenerator \<Rightarrow> unsigned_int list \<times> IdGenerator" where
  "IdGenerator_get_ids 0 g = ([], g)"
| "IdGenerator_get_ids (Suc n) g =
     (let (r, g1) = IdGenerator_get_id g;
          (rs, g2) = IdGenerator_get_ids n g1
      in (r # rs, g2))"

section \<open>\<^verbatim>\<open>UniqueIDGenerator\<close>: the legacy unbounded allocator, strict reclaim\<close>

record UniqueIDGenerator =
  next_id :: c_int
  used_ids :: "c_int set"
  reclaimed_ids :: "c_int list"

definition UniqueIDGenerator_init :: UniqueIDGenerator where
  "UniqueIDGenerator_init =
     \<lparr>UniqueIDGenerator.next_id = 0, UniqueIDGenerator.used_ids = {},
      UniqueIDGenerator.reclaimed_ids = []\<rparr>"

definition UniqueIDGenerator_get_id :: "UniqueIDGenerator \<Rightarrow> c_int \<times> UniqueIDGenerator" where
  "UniqueIDGenerator_get_id g =
     (if UniqueIDGenerator.reclaimed_ids g \<noteq> [] then
        (let ident = hd (UniqueIDGenerator.reclaimed_ids g);
             g1 = g\<lparr>UniqueIDGenerator.reclaimed_ids := tl (UniqueIDGenerator.reclaimed_ids g)\<rparr>
         in (ident, g1\<lparr>UniqueIDGenerator.used_ids := insert ident (UniqueIDGenerator.used_ids g1)\<rparr>))
      else
        (let ident = UniqueIDGenerator.next_id g;
             g1 = g\<lparr>UniqueIDGenerator.next_id := UniqueIDGenerator.next_id g + 1\<rparr>
         in (ident, g1\<lparr>UniqueIDGenerator.used_ids := insert ident (UniqueIDGenerator.used_ids g1)\<rparr>)))"

definition UniqueIDGenerator_reclaim_id ::
    "UniqueIDGenerator \<Rightarrow> c_int \<Rightarrow> (error + unit) \<times> UniqueIDGenerator" where
  "UniqueIDGenerator_reclaim_id g id_value =
     (if id_value \<notin> UniqueIDGenerator.used_ids g then (Inl InvalidReclaim, g)
      else
        (Inr (),
         g\<lparr>UniqueIDGenerator.used_ids := UniqueIDGenerator.used_ids g - {id_value},
           UniqueIDGenerator.reclaimed_ids := UniqueIDGenerator.reclaimed_ids g @ [id_value]\<rparr>))"

text \<open>\<open>n\<close> calls of \<^verbatim>\<open>get_id\<close> in a row: the identifiers in order, and the allocator left.\<close>

fun UniqueIDGenerator_get_ids :: "nat \<Rightarrow> UniqueIDGenerator \<Rightarrow> c_int list \<times> UniqueIDGenerator" where
  "UniqueIDGenerator_get_ids 0 u = ([], u)"
| "UniqueIDGenerator_get_ids (Suc n) u =
     (let (r, u1) = UniqueIDGenerator_get_id u;
          (rs, u2) = UniqueIDGenerator_get_ids n u1
      in (r # rs, u2))"

section \<open>\<^verbatim>\<open>BoundedUniqueIDGenerator\<close>: the bounded allocator\<close>

text \<open>
  The two revisions of the header have the same constructor, \<^verbatim>\<open>get_id\<close> and
  \<^verbatim>\<open>reclaim_id\<close>. The data member \<^verbatim>\<open>next_id\<close> is set to 0 by the constructor and
  never used again.
\<close>

record BoundedUniqueIDGenerator =
  max_value :: c_int
  next_id :: c_int
  available_ids :: "c_int list"
  used_ids :: "c_int set"

text \<open>
  The loop of the constructor,
  \<^verbatim>\<open>for (int i = 0; i < max_value; ++i) available_ids.push(i);\<close>
  from the value of \<^verbatim>\<open>i\<close> and the queue it has reached.
\<close>

function constructor_loop :: "c_int \<Rightarrow> c_int \<Rightarrow> c_int list \<Rightarrow> c_int list" where
  "constructor_loop i max_value_arg q =
     (if i <s max_value_arg then constructor_loop (i + 1) max_value_arg (q @ [i]) else q)"
  by pat_completeness auto
termination
proof (relation "measure (\<lambda>(i, m, q). nat (sint m - sint i))")
  show "wf (measure (\<lambda>(i :: c_int, m :: c_int, q :: c_int list). nat (sint m - sint i)))"
    by simp
next
  fix i max_value_arg :: c_int and q :: "c_int list"
  assume "i <s max_value_arg"
  then have below: "sint i < sint max_value_arg"
    by (simp add: word_sless_alt)
  have top: "sint max_value_arg < 2 ^ 31"
    using sint_lt [of max_value_arg] by simp
  have bottom: "- (2 ^ 31) \<le> sint i"
    using sint_ge [of i] by simp
  have "sint (i + 1) = signed_take_bit 31 (sint i + 1)"
    by (simp add: sint_word_ariths)
  also have "\<dots> = sint i + 1"
    using below top bottom by (intro signed_take_bit_int_eq_self) auto
  finally show "((i + 1, max_value_arg, q @ [i]), (i, max_value_arg, q))
      \<in> measure (\<lambda>(i, m, q). nat (sint m - sint i))"
    using below by simp
qed

declare constructor_loop.simps [simp del]

text \<open>The constructor: the error when it throws, the object it has built otherwise.\<close>

definition BoundedUniqueIDGenerator_construct ::
    "c_int \<Rightarrow> error + BoundedUniqueIDGenerator" where
  "BoundedUniqueIDGenerator_construct max_value_arg =
     (if max_value_arg \<le>s 0 then Inl InvalidCapacity
      else Inr \<lparr>BoundedUniqueIDGenerator.max_value = max_value_arg,
                BoundedUniqueIDGenerator.next_id = 0,
                BoundedUniqueIDGenerator.available_ids = constructor_loop 0 max_value_arg [],
                BoundedUniqueIDGenerator.used_ids = {}\<rparr>)"

definition BoundedUniqueIDGenerator_get_id ::
    "BoundedUniqueIDGenerator \<Rightarrow> (error + c_int) \<times> BoundedUniqueIDGenerator" where
  "BoundedUniqueIDGenerator_get_id g =
     (if BoundedUniqueIDGenerator.available_ids g = [] then (Inl CapacityExhausted, g)
      else
        (let ident = hd (BoundedUniqueIDGenerator.available_ids g);
             g1 = g\<lparr>BoundedUniqueIDGenerator.available_ids :=
                       tl (BoundedUniqueIDGenerator.available_ids g)\<rparr>
         in (Inr ident,
             g1\<lparr>BoundedUniqueIDGenerator.used_ids :=
                   insert ident (BoundedUniqueIDGenerator.used_ids g1)\<rparr>)))"

definition BoundedUniqueIDGenerator_reclaim_id ::
    "BoundedUniqueIDGenerator \<Rightarrow> c_int \<Rightarrow> (error + unit) \<times> BoundedUniqueIDGenerator" where
  "BoundedUniqueIDGenerator_reclaim_id g id_value =
     (if id_value <s 0 \<or> BoundedUniqueIDGenerator.max_value g \<le>s id_value
         \<or> id_value \<notin> BoundedUniqueIDGenerator.used_ids g
      then (Inl InvalidReclaim, g)
      else
        (Inr (),
         g\<lparr>BoundedUniqueIDGenerator.used_ids := BoundedUniqueIDGenerator.used_ids g - {id_value},
           BoundedUniqueIDGenerator.available_ids :=
             BoundedUniqueIDGenerator.available_ids g @ [id_value]\<rparr>))"

text \<open>
  A call on a bounded allocator, and a sequence of calls from left to right; what a call
  returns or throws is dropped, the allocator it leaves behind is kept.
\<close>

datatype operation = Get_id | Reclaim_id c_int

definition BoundedUniqueIDGenerator_call ::
    "BoundedUniqueIDGenerator \<Rightarrow> operation \<Rightarrow> BoundedUniqueIDGenerator" where
  "BoundedUniqueIDGenerator_call g c =
     (case c of
        Get_id \<Rightarrow> snd (BoundedUniqueIDGenerator_get_id g)
      | Reclaim_id id_value \<Rightarrow> snd (BoundedUniqueIDGenerator_reclaim_id g id_value))"

definition BoundedUniqueIDGenerator_calls ::
    "BoundedUniqueIDGenerator \<Rightarrow> operation list \<Rightarrow> BoundedUniqueIDGenerator" where
  "BoundedUniqueIDGenerator_calls g cs = foldl BoundedUniqueIDGenerator_call g cs"

text \<open>\<open>n\<close> calls of \<^verbatim>\<open>get_id\<close> in a row: their outcomes in order, and the allocator left.\<close>

fun BoundedUniqueIDGenerator_get_ids ::
    "nat \<Rightarrow> BoundedUniqueIDGenerator \<Rightarrow> (error + c_int) list \<times> BoundedUniqueIDGenerator" where
  "BoundedUniqueIDGenerator_get_ids 0 g = ([], g)"
| "BoundedUniqueIDGenerator_get_ids (Suc n) g =
     (let (r, g1) = BoundedUniqueIDGenerator_get_id g;
          (rs, g2) = BoundedUniqueIDGenerator_get_ids n g1
      in (r # rs, g2))"

text \<open>
  What the calls on a bounded allocator keep: the used set is finite, no identifier is
  twice in the queue or both in the queue and in the used set, and the identifiers of the
  two together are as many as \<^verbatim>\<open>max_value\<close>.
\<close>

definition BoundedUniqueIDGenerator_conserved :: "BoundedUniqueIDGenerator \<Rightarrow> bool" where
  "BoundedUniqueIDGenerator_conserved g \<longleftrightarrow>
     finite (BoundedUniqueIDGenerator.used_ids g)
     \<and> distinct (BoundedUniqueIDGenerator.available_ids g)
     \<and> BoundedUniqueIDGenerator.used_ids g \<inter> set (BoundedUniqueIDGenerator.available_ids g) = {}
     \<and> card (BoundedUniqueIDGenerator.used_ids g)
         + length (BoundedUniqueIDGenerator.available_ids g)
       = nat (sint (BoundedUniqueIDGenerator.max_value g))"

section \<open>\<^verbatim>\<open>IDGenerator\<close>: the abstract base of the legacy allocators\<close>

text \<open>
  \<^verbatim>\<open>UniqueIDGenerator\<close> and \<^verbatim>\<open>BoundedUniqueIDGenerator\<close> override the two virtual
  functions of \<^verbatim>\<open>IDGenerator\<close>; a call through the base class goes to the override of
  the object's class.
\<close>

datatype IDGenerator = Unique UniqueIDGenerator | Bounded BoundedUniqueIDGenerator

fun IDGenerator_get_id :: "IDGenerator \<Rightarrow> (error + c_int) \<times> IDGenerator" where
  "IDGenerator_get_id (Unique g) =
     (let (ident, g1) = UniqueIDGenerator_get_id g in (Inr ident, Unique g1))"
| "IDGenerator_get_id (Bounded g) =
     (let (r, g1) = BoundedUniqueIDGenerator_get_id g in (r, Bounded g1))"

fun IDGenerator_reclaim_id :: "IDGenerator \<Rightarrow> c_int \<Rightarrow> (error + unit) \<times> IDGenerator" where
  "IDGenerator_reclaim_id (Unique g) id_value =
     (let (r, g1) = UniqueIDGenerator_reclaim_id g id_value in (r, Unique g1))"
| "IDGenerator_reclaim_id (Bounded g) id_value =
     (let (r, g1) = BoundedUniqueIDGenerator_reclaim_id g id_value in (r, Bounded g1))"

section \<open>\<^verbatim>\<open>GlobalUIDGenerator\<close>: the process-wide counter\<close>

text \<open>
  The two static data members of the class are the state of the process. The class is
  called \<^verbatim>\<open>GlobalUIDGenerator\<close> with the member function \<^verbatim>\<open>get_id\<close> in one revision
  of the source and \<^verbatim>\<open>UniqueIDGenerator\<close> with \<^verbatim>\<open>generate\<close> in the other; the data
  members and the body are the same.
\<close>

record GlobalUIDGenerator =
  current_id :: c_int
  last_generated_id :: c_int

text \<open>The static initialisers, \<^verbatim>\<open>current_id = 0\<close> and \<^verbatim>\<open>last_generated_id = 0\<close>.\<close>

definition GlobalUIDGenerator_init :: GlobalUIDGenerator where
  "GlobalUIDGenerator_init = \<lparr>current_id = 0, last_generated_id = 0\<rparr>"

definition GlobalUIDGenerator_get_id :: "GlobalUIDGenerator \<Rightarrow> c_int \<times> GlobalUIDGenerator" where
  "GlobalUIDGenerator_get_id p =
     (let p1 = p\<lparr>current_id := current_id p + 1\<rparr>;
          p2 = p1\<lparr>last_generated_id := current_id p1\<rparr>
      in (current_id p2, p2))"

definition UniqueIDGenerator_generate :: "GlobalUIDGenerator \<Rightarrow> c_int \<times> GlobalUIDGenerator" where
  "UniqueIDGenerator_generate p =
     (let p1 = p\<lparr>current_id := current_id p + 1\<rparr>;
          p2 = p1\<lparr>last_generated_id := current_id p1\<rparr>
      in (current_id p2, p2))"

text \<open>\<open>n\<close> calls in a row: the values returned in order, and the state left.\<close>

fun GlobalUIDGenerator_get_ids :: "nat \<Rightarrow> GlobalUIDGenerator \<Rightarrow> c_int list \<times> GlobalUIDGenerator" where
  "GlobalUIDGenerator_get_ids 0 p = ([], p)"
| "GlobalUIDGenerator_get_ids (Suc n) p =
     (let (r, p1) = GlobalUIDGenerator_get_id p;
          (rs, p2) = GlobalUIDGenerator_get_ids n p1
      in (r # rs, p2))"

fun UniqueIDGenerator_generates :: "nat \<Rightarrow> GlobalUIDGenerator \<Rightarrow> c_int list \<times> GlobalUIDGenerator" where
  "UniqueIDGenerator_generates 0 p = ([], p)"
| "UniqueIDGenerator_generates (Suc n) p =
     (let (r, p1) = UniqueIDGenerator_generate p;
          (rs, p2) = UniqueIDGenerator_generates n p1
      in (r # rs, p2))"

section \<open>Facts about the machine integers\<close>

lemma sint_succ_below:
  fixes i m :: c_int
  assumes "i <s m"
  shows "sint (i + 1) = sint i + 1"
proof -
  have below: "sint i < sint m"
    using assms by (simp add: word_sless_alt)
  have top: "sint m < 2 ^ 31"
    using sint_lt [of m] by simp
  have bottom: "- (2 ^ 31) \<le> sint i"
    using sint_ge [of i] by simp
  have "sint (i + 1) = signed_take_bit 31 (sint i + 1)"
    by (simp add: sint_word_ariths)
  also have "\<dots> = sint i + 1"
    using below top bottom by (intro signed_take_bit_int_eq_self) auto
  finally show ?thesis .
qed

lemma sint_of_nat_small:
  assumes "n < 2147483648"
  shows "sint (of_nat n :: c_int) = int n"
proof -
  have "sint (of_nat n :: c_int) = signed_take_bit 31 (int n)"
    by (simp add: signed_of_nat)
  also have "\<dots> = int n"
    using assms by (intro signed_take_bit_int_eq_self) auto
  finally show ?thesis .
qed

lemma of_nat_inj_small:
  assumes "m < 2147483648" "n < 2147483648" "(of_nat m :: c_int) = of_nat n"
  shows "m = n"
proof -
  have "int m = sint (of_nat m :: c_int)"
    using assms(1) by (simp add: sint_of_nat_small)
  also have "\<dots> = sint (of_nat n :: c_int)"
    using assms(3) by simp
  also have "\<dots> = int n"
    using assms(2) by (simp add: sint_of_nat_small)
  finally show ?thesis by simp
qed

lemma map_sint_of_nat:
  assumes "\<forall>k\<in>set ks. k < 2147483648"
  shows "map sint (map (of_nat :: nat \<Rightarrow> c_int) ks) = map int ks"
  using assms by (induction ks) (simp_all add: sint_of_nat_small)

lemma sorted_wrt_map_of_nat:
  assumes "\<forall>k\<in>set ks. k < 2147483648" "sorted_wrt (<) ks"
  shows "sorted_wrt (<s) (map (of_nat :: nat \<Rightarrow> c_int) ks)"
  using assms by (induction ks) (auto simp: word_sless_alt sint_of_nat_small)

lemma distinct_map_of_nat:
  assumes "\<forall>k\<in>set ks. k < 2147483648" "distinct ks"
  shows "distinct (map (of_nat :: nat \<Rightarrow> c_int) ks)"
  using assms by (auto simp: distinct_map inj_on_def intro: of_nat_inj_small)

lemma unat_succ_below:
  fixes w :: unsigned_int
  assumes "unat w + 1 < 4294967296"
  shows "unat (w + 1) = unat w + 1"
proof -
  have "unat w + unat (1 :: unsigned_int) < 2 ^ LENGTH(32)"
    using assms by simp
  then have "unat (w + 1) = unat w + unat (1 :: unsigned_int)"
    by (simp only: unat_add_lem)
  then show ?thesis by simp
qed

lemma nat_sint_bound: "nat (sint (C :: c_int)) < 2147483648"
  using sint_lt [of C] by simp

lemma below_capacity: "\<forall>k\<in>set [0..<nat (sint (C :: c_int))]. k < 2147483648"
  using nat_sint_bound [of C] by auto

section \<open>The process-wide counter\<close>

lemma UniqueIDGenerator_generate_eq:
  "UniqueIDGenerator_generate p = GlobalUIDGenerator_get_id p"
  by (simp add: UniqueIDGenerator_generate_def GlobalUIDGenerator_get_id_def)

lemma UniqueIDGenerator_generates_eq:
  "UniqueIDGenerator_generates n p = GlobalUIDGenerator_get_ids n p"
  by (induction n arbitrary: p) (simp_all add: UniqueIDGenerator_generate_eq)

lemma GlobalUIDGenerator_get_id_eq:
  "GlobalUIDGenerator_get_id p =
     (current_id p + 1, \<lparr>current_id = current_id p + 1, last_generated_id = current_id p + 1\<rparr>)"
  by (simp add: GlobalUIDGenerator_get_id_def Let_def)

text \<open>
  \<open>n\<close> calls from any state return the \<open>n\<close> successors of the counter, as words, and
  leave the last of them in both data members.
\<close>

lemma GlobalUIDGenerator_get_ids_eq:
  "GlobalUIDGenerator_get_ids n p =
     (map (\<lambda>k. current_id p + of_nat k) [1..<Suc n],
      \<lparr>current_id = current_id p + of_nat n,
       last_generated_id = (if n = 0 then last_generated_id p else current_id p + of_nat n)\<rparr>)"
proof (induction n arbitrary: p)
  case 0
  show ?case by simp
next
  case (Suc n)
  have shift: "map (\<lambda>k. current_id p + 1 + of_nat k) [1..<Suc n] =
      map (\<lambda>k. current_id p + of_nat k) [2..<Suc (Suc n)]"
  proof -
    have "[2..<Suc (Suc n)] = map Suc [1..<Suc n]"
      using map_Suc_upt [of 1 "Suc n"] by (simp add: numeral_2_eq_2)
    then show ?thesis by (simp add: o_def add.assoc)
  qed
  have "[1..<Suc (Suc n)] = 1 # [2..<Suc (Suc n)]"
    by (simp add: upt_rec numeral_2_eq_2)
  then show ?case
    using shift by (simp add: Suc GlobalUIDGenerator_get_id_eq add.assoc)
qed

lemma GlobalUIDGenerator_get_ids_length:
  "length (fst (GlobalUIDGenerator_get_ids n p)) = n"
  by (simp add: GlobalUIDGenerator_get_ids_eq del: upt_Suc)

lemma GlobalUIDGenerator_get_ids_nth:
  assumes "k < n"
  shows "fst (GlobalUIDGenerator_get_ids n p) ! k = current_id p + of_nat (Suc k)"
proof -
  have "map (\<lambda>k. current_id p + of_nat k) [1..<Suc n] ! k
      = current_id p + of_nat ([1..<Suc n] ! k)"
    using assms by (intro nth_map) simp
  also have "[1..<Suc n] ! k = Suc k"
    using assms nth_upt [of 1 k "Suc n"] by simp
  finally show ?thesis
    by (simp add: GlobalUIDGenerator_get_ids_eq del: upt_Suc)
qed

text \<open>
  C8, as it is stated, fails for a sequence longer than \<^verbatim>\<open>INT_MAX\<close>: of 2147483648
  calls from the static initialisers, call 2147483647 returns 2147483647 and call
  2147483648, whose increment overflows the \<^verbatim>\<open>int\<close> counter, returns -2147483648, so
  the values returned are not strictly increasing.
\<close>

theorem singleton_counter_overflow_counterexample:
  "length (fst (GlobalUIDGenerator_get_ids 2147483648 GlobalUIDGenerator_init)) = 2147483648
   \<and> sint (fst (GlobalUIDGenerator_get_ids 2147483648 GlobalUIDGenerator_init) ! 2147483646)
       = 2147483647
   \<and> sint (fst (GlobalUIDGenerator_get_ids 2147483648 GlobalUIDGenerator_init) ! 2147483647)
       = - 2147483648
   \<and> \<not> sorted_wrt (<s) (fst (GlobalUIDGenerator_get_ids 2147483648 GlobalUIDGenerator_init))"
proof -
  let ?rs = "fst (GlobalUIDGenerator_get_ids 2147483648 GlobalUIDGenerator_init)"
  have len: "length ?rs = 2147483648"
    by (rule GlobalUIDGenerator_get_ids_length)
  have "?rs ! 2147483646 = current_id GlobalUIDGenerator_init + of_nat (Suc 2147483646)"
    by (rule GlobalUIDGenerator_get_ids_nth) simp
  then have before: "?rs ! 2147483646 = 2147483647"
    by (simp add: GlobalUIDGenerator_init_def)
  have "?rs ! 2147483647 = current_id GlobalUIDGenerator_init + of_nat (Suc 2147483647)"
    by (rule GlobalUIDGenerator_get_ids_nth) simp
  then have last: "?rs ! 2147483647 = 2147483648"
    by (simp add: GlobalUIDGenerator_init_def)
  have "\<not> (?rs ! 2147483646 <s ?rs ! 2147483647)"
    unfolding before last by (simp add: word_sless_alt)
  moreover have "?rs ! 2147483646 <s ?rs ! 2147483647" if "sorted_wrt (<s) ?rs"
    using sorted_wrt_nth_less [OF that, of 2147483646 2147483647] len by simp
  ultimately have "\<not> sorted_wrt (<s) ?rs"
    by blast
  then show ?thesis
    unfolding before last using len by simp
qed

text \<open>
  C8, amended. Each call of the counter adds one to \<^verbatim>\<open>current_id\<close> and returns the new value,
  under either name of the class. From the static initialisers the first call returns 1,
  and \<open>n\<close> calls in a row return \<open>1, 2, \<dots>, n\<close>, strictly increasing and without a
  repeat, for every \<open>n\<close> that an \<^verbatim>\<open>int\<close> can hold (\<open>n \<le> INT_MAX = 2\<^sup>3\<^sup>1 - 1\<close>).
\<close>

theorem singleton_counter_returns_1_to_n:
  "fst (GlobalUIDGenerator_get_id p) = current_id p + 1
   \<and> current_id (snd (GlobalUIDGenerator_get_id p)) = current_id p + 1
   \<and> UniqueIDGenerator_generate p = GlobalUIDGenerator_get_id p
   \<and> UniqueIDGenerator_generates n p = GlobalUIDGenerator_get_ids n p
   \<and> fst (GlobalUIDGenerator_get_id GlobalUIDGenerator_init) = 1
   \<and> (n < 2 ^ 31 \<longrightarrow>
        map sint (fst (GlobalUIDGenerator_get_ids n GlobalUIDGenerator_init)) = map int [1..<Suc n]
      \<and> sorted_wrt (<s) (fst (GlobalUIDGenerator_get_ids n GlobalUIDGenerator_init))
      \<and> distinct (fst (GlobalUIDGenerator_get_ids n GlobalUIDGenerator_init)))"
proof -
  have first: "fst (GlobalUIDGenerator_get_id GlobalUIDGenerator_init) = 1"
    by (simp add: GlobalUIDGenerator_get_id_eq GlobalUIDGenerator_init_def)
  have run: "fst (GlobalUIDGenerator_get_ids n GlobalUIDGenerator_init) = map of_nat [1..<Suc n]"
    by (simp add: GlobalUIDGenerator_get_ids_eq GlobalUIDGenerator_init_def)
  have bound: "\<forall>k\<in>set [1..<Suc n]. k < 2147483648" if "n < 2 ^ 31"
    unfolding set_upt using that by auto
  have "map sint (map (of_nat :: nat \<Rightarrow> c_int) [1..<Suc n]) = map int [1..<Suc n]"
    if "n < 2 ^ 31"
    using bound [OF that] by (rule map_sint_of_nat)
  moreover have "sorted_wrt (<s) (map (of_nat :: nat \<Rightarrow> c_int) [1..<Suc n])" if "n < 2 ^ 31"
    using bound [OF that] sorted_wrt_upt by (rule sorted_wrt_map_of_nat)
  moreover have "distinct (map (of_nat :: nat \<Rightarrow> c_int) [1..<Suc n])" if "n < 2 ^ 31"
    using bound [OF that] distinct_upt by (rule distinct_map_of_nat)
  ultimately show ?thesis
    unfolding run using first
    by (simp add: GlobalUIDGenerator_get_id_eq UniqueIDGenerator_generate_eq
        UniqueIDGenerator_generates_eq)
qed

theorem singleton_counter_returns_1_to_n_witness:
  "(3::nat) < 2 ^ 31
   \<and> fst (GlobalUIDGenerator_get_ids 3 GlobalUIDGenerator_init) = [1, 2, 3]
   \<and> map sint (fst (GlobalUIDGenerator_get_ids 3 GlobalUIDGenerator_init)) = [1, 2, 3]
   \<and> sorted_wrt (<s) (fst (GlobalUIDGenerator_get_ids 3 GlobalUIDGenerator_init))
   \<and> distinct (fst (GlobalUIDGenerator_get_ids 3 GlobalUIDGenerator_init))"
proof -
  have run: "fst (GlobalUIDGenerator_get_ids 3 GlobalUIDGenerator_init) = [1, 2, 3]"
    by (simp add: numeral_3_eq_3 GlobalUIDGenerator_get_id_eq GlobalUIDGenerator_init_def)
  show ?thesis
    using singleton_counter_returns_1_to_n [of GlobalUIDGenerator_init 3] run by simp
qed

text \<open>
  C10. \<^verbatim>\<open>last_generated_id\<close> is 0 in the initial state of the process, and the state
  that a call leaves, from whatever state it is made, has the value the call returned in
  \<^verbatim>\<open>last_generated_id\<close> and in \<^verbatim>\<open>current_id\<close>. The class has no other member
  function: \<^verbatim>\<open>get_id\<close> (or \<^verbatim>\<open>generate\<close>) is the only operation on the state.
\<close>

theorem last_generated_id_is_returned_value:
  "last_generated_id GlobalUIDGenerator_init = 0
   \<and> last_generated_id (snd (GlobalUIDGenerator_get_id p)) = fst (GlobalUIDGenerator_get_id p)
   \<and> current_id (snd (GlobalUIDGenerator_get_id p)) = fst (GlobalUIDGenerator_get_id p)
   \<and> last_generated_id (snd (UniqueIDGenerator_generate p)) = fst (UniqueIDGenerator_generate p)
   \<and> current_id (snd (UniqueIDGenerator_generate p)) = fst (UniqueIDGenerator_generate p)"
  by (simp add: GlobalUIDGenerator_get_id_def UniqueIDGenerator_generate_def
      GlobalUIDGenerator_init_def Let_def)

section \<open>The unbounded allocators\<close>

lemma IdGenerator_get_id_pool:
  "IdGenerator.reclaimed_ids g = x # xs \<Longrightarrow>
     IdGenerator_get_id g =
       (x, g\<lparr>IdGenerator.reclaimed_ids := xs,
             IdGenerator.used_ids := insert x (IdGenerator.used_ids g)\<rparr>)"
  by (simp add: IdGenerator_get_id_def Let_def)

lemma IdGenerator_get_id_fresh:
  "IdGenerator.reclaimed_ids g = [] \<Longrightarrow>
     IdGenerator_get_id g =
       (IdGenerator.next_id g,
        g\<lparr>IdGenerator.next_id :=
             (if IdGenerator.next_id g + 1 = unsigned_int_max then 0 else IdGenerator.next_id g + 1),
          IdGenerator.used_ids := insert (IdGenerator.next_id g) (IdGenerator.used_ids g)\<rparr>)"
  by (simp add: IdGenerator_get_id_def Let_def)

lemma UniqueIDGenerator_get_id_pool:
  "UniqueIDGenerator.reclaimed_ids u = x # xs \<Longrightarrow>
     UniqueIDGenerator_get_id u =
       (x, u\<lparr>UniqueIDGenerator.reclaimed_ids := xs,
             UniqueIDGenerator.used_ids := insert x (UniqueIDGenerator.used_ids u)\<rparr>)"
  by (simp add: UniqueIDGenerator_get_id_def Let_def)

lemma UniqueIDGenerator_get_id_fresh:
  "UniqueIDGenerator.reclaimed_ids u = [] \<Longrightarrow>
     UniqueIDGenerator_get_id u =
       (UniqueIDGenerator.next_id u,
        u\<lparr>UniqueIDGenerator.next_id := UniqueIDGenerator.next_id u + 1,
          UniqueIDGenerator.used_ids :=
            insert (UniqueIDGenerator.next_id u) (UniqueIDGenerator.used_ids u)\<rparr>)"
  by (simp add: UniqueIDGenerator_get_id_def Let_def)

text \<open>
  With an empty queue and the counter far enough below the maximum, \<open>n\<close> calls mint the
  next \<open>n\<close> values of the counter and put them in the used set.
\<close>

lemma IdGenerator_get_ids_fresh:
  assumes "IdGenerator.reclaimed_ids g = []" "unat (IdGenerator.next_id g) + n < 4294967295"
  shows "IdGenerator_get_ids n g =
     (map (\<lambda>k. IdGenerator.next_id g + of_nat k) [0..<n],
      g\<lparr>IdGenerator.next_id := IdGenerator.next_id g + of_nat n,
        IdGenerator.used_ids :=
          IdGenerator.used_ids g \<union> (\<lambda>k. IdGenerator.next_id g + of_nat k) ` {0..<n}\<rparr>)"
  using assms
proof (induction n arbitrary: g)
  case 0
  show ?case by simp
next
  case (Suc n)
  let ?w = "IdGenerator.next_id g"
  let ?g1 = "g\<lparr>IdGenerator.next_id := ?w + 1,
               IdGenerator.used_ids := insert ?w (IdGenerator.used_ids g)\<rparr>"
  have succ: "unat (?w + 1) = unat ?w + 1"
    using Suc.prems(2) by (intro unat_succ_below) simp
  have "unat (?w + 1) \<noteq> unat unsigned_int_max"
    using Suc.prems(2) succ by (simp add: unsigned_int_max_def)
  then have no_wrap: "?w + 1 \<noteq> unsigned_int_max"
    by auto
  have first: "IdGenerator_get_id g = (?w, ?g1)"
    using Suc.prems(1) no_wrap by (simp add: IdGenerator_get_id_fresh)
  have rest: "IdGenerator_get_ids n ?g1 =
     (map (\<lambda>k. ?w + 1 + of_nat k) [0..<n],
      ?g1\<lparr>IdGenerator.next_id := ?w + 1 + of_nat n,
        IdGenerator.used_ids :=
          insert ?w (IdGenerator.used_ids g) \<union> (\<lambda>k. ?w + 1 + of_nat k) ` {0..<n}\<rparr>)"
    using Suc.IH [of ?g1] Suc.prems succ by simp
  have list: "?w # map (\<lambda>k. ?w + 1 + of_nat k) [0..<n] = map (\<lambda>k. ?w + of_nat k) [0..<Suc n]"
  proof -
    have "[0..<Suc n] = 0 # map Suc [0..<n]"
      by (simp add: upt_conv_Cons map_Suc_upt del: upt_Suc)
    then show ?thesis
      by (simp add: o_def add.assoc del: upt_Suc)
  qed
  have image: "insert ?w (IdGenerator.used_ids g) \<union> (\<lambda>k. ?w + 1 + of_nat k) ` {0..<n}
      = IdGenerator.used_ids g \<union> (\<lambda>k. ?w + of_nat k) ` {0..<Suc n}"
  proof -
    have "{0..<Suc n} = insert 0 (Suc ` {0..<n})"
      by (auto simp: image_iff)
    then show ?thesis
      by (simp add: image_image add.assoc del: image_Suc_atLeastLessThan)
  qed
  show ?case
    using list image by (simp add: first rest add.assoc del: upt_Suc)
qed

text \<open>
  The allocator after 4294967294 calls of \<^verbatim>\<open>get_id\<close> on a new \<^verbatim>\<open>IdGenerator\<close>, none
  reclaimed: the counter is one below the maximum of \<^verbatim>\<open>unsigned int\<close>.
\<close>

lemma IdGenerator_run_to_last_fresh:
  "IdGenerator_get_ids 4294967294 IdGenerator_init =
     (map of_nat [0..<4294967294],
      \<lparr>IdGenerator.next_id = 4294967294, IdGenerator.used_ids = of_nat ` {0..<4294967294},
       IdGenerator.reclaimed_ids = []\<rparr>)"
  using IdGenerator_get_ids_fresh [of IdGenerator_init 4294967294]
  by (simp add: IdGenerator_init_def)

text \<open>
  C3, as it is stated, fails on \<^verbatim>\<open>IdGenerator\<close>: after 4294967294 calls of
  \<^verbatim>\<open>get_id\<close> on a new allocator the queue is empty and the counter is 4294967294; the
  next call returns 4294967294 and leaves the counter at 0, not at the counter plus one.
\<close>

theorem IdGenerator_get_id_increment_counterexample:
  "IdGenerator.reclaimed_ids (snd (IdGenerator_get_ids 4294967294 IdGenerator_init)) = []
   \<and> IdGenerator.next_id (snd (IdGenerator_get_ids 4294967294 IdGenerator_init)) = 4294967294
   \<and> fst (IdGenerator_get_id (snd (IdGenerator_get_ids 4294967294 IdGenerator_init))) = 4294967294
   \<and> IdGenerator.next_id
        (snd (IdGenerator_get_id (snd (IdGenerator_get_ids 4294967294 IdGenerator_init)))) = 0
   \<and> IdGenerator.next_id
        (snd (IdGenerator_get_id (snd (IdGenerator_get_ids 4294967294 IdGenerator_init))))
       \<noteq> IdGenerator.next_id (snd (IdGenerator_get_ids 4294967294 IdGenerator_init)) + 1"
  unfolding IdGenerator_run_to_last_fresh
  by (simp add: IdGenerator_get_id_fresh unsigned_int_max_def)

text \<open>
  C3, amended. In \<^verbatim>\<open>IdGenerator\<close> and in \<^verbatim>\<open>UniqueIDGenerator\<close>: when the queue of
  reclaimed identifiers is not empty, \<^verbatim>\<open>get_id\<close> returns its front, the identifier
  reclaimed the longest ago, drops it from the queue and puts it in the used set; so after
  one used identifier \<open>a\<close> is reclaimed into an empty queue the next \<^verbatim>\<open>get_id\<close> returns
  \<open>a\<close>, and after \<open>a\<close> and then \<open>b\<close> are reclaimed the next two calls return \<open>a\<close> and
  then \<open>b\<close>. When the queue is empty, \<^verbatim>\<open>get_id\<close> returns \<^verbatim>\<open>next_id\<close> and adds one to
  it, except that \<^verbatim>\<open>IdGenerator\<close> sets \<^verbatim>\<open>next_id\<close> to 0 when the incremented value is
  the maximum of \<^verbatim>\<open>unsigned int\<close>.
\<close>

theorem unbounded_get_id_reuses_oldest_then_mints:
  "(IdGenerator.reclaimed_ids g = x # xs \<longrightarrow>
      IdGenerator_get_id g =
        (x, g\<lparr>IdGenerator.reclaimed_ids := xs,
              IdGenerator.used_ids := insert x (IdGenerator.used_ids g)\<rparr>))
   \<and> (IdGenerator.reclaimed_ids g = [] \<and> a \<in> IdGenerator.used_ids g \<longrightarrow>
        fst (IdGenerator_get_id (IdGenerator_reclaim_id g a)) = a)
   \<and> (IdGenerator.reclaimed_ids g = [] \<and> a \<in> IdGenerator.used_ids g
        \<and> b \<in> IdGenerator.used_ids g \<and> a \<noteq> b \<longrightarrow>
        fst (IdGenerator_get_id (IdGenerator_reclaim_id (IdGenerator_reclaim_id g a) b)) = a
        \<and> fst (IdGenerator_get_id (snd (IdGenerator_get_id
                 (IdGenerator_reclaim_id (IdGenerator_reclaim_id g a) b)))) = b)
   \<and> (IdGenerator.reclaimed_ids g = [] \<longrightarrow>
        fst (IdGenerator_get_id g) = IdGenerator.next_id g
        \<and> IdGenerator.next_id (snd (IdGenerator_get_id g)) =
            (if IdGenerator.next_id g + 1 = unsigned_int_max then 0 else IdGenerator.next_id g + 1))
   \<and> (UniqueIDGenerator.reclaimed_ids u = x # xs \<longrightarrow>
        UniqueIDGenerator_get_id u =
          (x, u\<lparr>UniqueIDGenerator.reclaimed_ids := xs,
                UniqueIDGenerator.used_ids := insert x (UniqueIDGenerator.used_ids u)\<rparr>))
   \<and> (UniqueIDGenerator.reclaimed_ids u = [] \<and> a \<in> UniqueIDGenerator.used_ids u \<longrightarrow>
        fst (UniqueIDGenerator_get_id (snd (UniqueIDGenerator_reclaim_id u a))) = a)
   \<and> (UniqueIDGenerator.reclaimed_ids u = [] \<and> a \<in> UniqueIDGenerator.used_ids u
        \<and> b \<in> UniqueIDGenerator.used_ids u \<and> a \<noteq> b \<longrightarrow>
        fst (UniqueIDGenerator_get_id (snd (UniqueIDGenerator_reclaim_id
               (snd (UniqueIDGenerator_reclaim_id u a)) b))) = a
        \<and> fst (UniqueIDGenerator_get_id (snd (UniqueIDGenerator_get_id
               (snd (UniqueIDGenerator_reclaim_id
                  (snd (UniqueIDGenerator_reclaim_id u a)) b))))) = b)
   \<and> (UniqueIDGenerator.reclaimed_ids u = [] \<longrightarrow>
        fst (UniqueIDGenerator_get_id u) = UniqueIDGenerator.next_id u
        \<and> UniqueIDGenerator.next_id (snd (UniqueIDGenerator_get_id u)) =
            UniqueIDGenerator.next_id u + 1)"
proof -
  have lenient: "IdGenerator_get_id g =
        (x, g\<lparr>IdGenerator.reclaimed_ids := xs,
              IdGenerator.used_ids := insert x (IdGenerator.used_ids g)\<rparr>)"
    if "IdGenerator.reclaimed_ids g = x # xs"
    using that by (rule IdGenerator_get_id_pool)
  have lenient_one: "fst (IdGenerator_get_id (IdGenerator_reclaim_id g a)) = a"
    if "IdGenerator.reclaimed_ids g = []" "a \<in> IdGenerator.used_ids g"
    using that by (simp add: IdGenerator_reclaim_id_def IdGenerator_get_id_def Let_def)
  have lenient_two:
    "fst (IdGenerator_get_id (IdGenerator_reclaim_id (IdGenerator_reclaim_id g a) b)) = a
     \<and> fst (IdGenerator_get_id (snd (IdGenerator_get_id
              (IdGenerator_reclaim_id (IdGenerator_reclaim_id g a) b)))) = b"
    if "IdGenerator.reclaimed_ids g = []" "a \<in> IdGenerator.used_ids g"
      "b \<in> IdGenerator.used_ids g" "a \<noteq> b"
    using that by (simp add: IdGenerator_reclaim_id_def IdGenerator_get_id_def Let_def)
  have lenient_fresh: "fst (IdGenerator_get_id g) = IdGenerator.next_id g
        \<and> IdGenerator.next_id (snd (IdGenerator_get_id g)) =
            (if IdGenerator.next_id g + 1 = unsigned_int_max then 0 else IdGenerator.next_id g + 1)"
    if "IdGenerator.reclaimed_ids g = []"
    using that by (simp add: IdGenerator_get_id_fresh)
  have strict: "UniqueIDGenerator_get_id u =
          (x, u\<lparr>UniqueIDGenerator.reclaimed_ids := xs,
                UniqueIDGenerator.used_ids := insert x (UniqueIDGenerator.used_ids u)\<rparr>)"
    if "UniqueIDGenerator.reclaimed_ids u = x # xs"
    using that by (rule UniqueIDGenerator_get_id_pool)
  have strict_one: "fst (UniqueIDGenerator_get_id (snd (UniqueIDGenerator_reclaim_id u a))) = a"
    if "UniqueIDGenerator.reclaimed_ids u = []" "a \<in> UniqueIDGenerator.used_ids u"
    using that by (simp add: UniqueIDGenerator_reclaim_id_def UniqueIDGenerator_get_id_def Let_def)
  have strict_two:
    "fst (UniqueIDGenerator_get_id (snd (UniqueIDGenerator_reclaim_id
               (snd (UniqueIDGenerator_reclaim_id u a)) b))) = a
        \<and> fst (UniqueIDGenerator_get_id (snd (UniqueIDGenerator_get_id
               (snd (UniqueIDGenerator_reclaim_id
                  (snd (UniqueIDGenerator_reclaim_id u a)) b))))) = b"
    if "UniqueIDGenerator.reclaimed_ids u = []" "a \<in> UniqueIDGenerator.used_ids u"
      "b \<in> UniqueIDGenerator.used_ids u" "a \<noteq> b"
    using that by (simp add: UniqueIDGenerator_reclaim_id_def UniqueIDGenerator_get_id_def Let_def)
  have strict_fresh: "fst (UniqueIDGenerator_get_id u) = UniqueIDGenerator.next_id u
        \<and> UniqueIDGenerator.next_id (snd (UniqueIDGenerator_get_id u)) =
            UniqueIDGenerator.next_id u + 1"
    if "UniqueIDGenerator.reclaimed_ids u = []"
    using that by (simp add: UniqueIDGenerator_get_id_fresh)
  show ?thesis
    using lenient lenient_one lenient_two lenient_fresh strict strict_one strict_two strict_fresh
    by blast
qed

theorem unbounded_get_id_reuses_oldest_then_mints_witness:
  "IdGenerator_get_id
     \<lparr>IdGenerator.next_id = 3, IdGenerator.used_ids = {2}, IdGenerator.reclaimed_ids = [1, 0]\<rparr>
   = (1, \<lparr>IdGenerator.next_id = 3, IdGenerator.used_ids = {1, 2},
          IdGenerator.reclaimed_ids = [0]\<rparr>)
   \<and> fst (IdGenerator_get_id (IdGenerator_reclaim_id
        \<lparr>IdGenerator.next_id = 3, IdGenerator.used_ids = {0, 1, 2},
         IdGenerator.reclaimed_ids = []\<rparr> 1)) = 1
   \<and> fst (IdGenerator_get_id (snd (IdGenerator_get_id (IdGenerator_reclaim_id
        (IdGenerator_reclaim_id
           \<lparr>IdGenerator.next_id = 3, IdGenerator.used_ids = {0, 1, 2},
            IdGenerator.reclaimed_ids = []\<rparr> 1) 0)))) = 0
   \<and> fst (IdGenerator_get_id
        \<lparr>IdGenerator.next_id = 3, IdGenerator.used_ids = {0, 1, 2},
         IdGenerator.reclaimed_ids = []\<rparr>) = 3
   \<and> IdGenerator.next_id (snd (IdGenerator_get_id
        \<lparr>IdGenerator.next_id = 3, IdGenerator.used_ids = {0, 1, 2},
         IdGenerator.reclaimed_ids = []\<rparr>)) = 4
   \<and> UniqueIDGenerator_get_id
        \<lparr>UniqueIDGenerator.next_id = 3, UniqueIDGenerator.used_ids = {2},
         UniqueIDGenerator.reclaimed_ids = [1, 0]\<rparr>
      = (1, \<lparr>UniqueIDGenerator.next_id = 3, UniqueIDGenerator.used_ids = {1, 2},
             UniqueIDGenerator.reclaimed_ids = [0]\<rparr>)
   \<and> fst (UniqueIDGenerator_get_id (snd (UniqueIDGenerator_get_id
        (snd (UniqueIDGenerator_reclaim_id (snd (UniqueIDGenerator_reclaim_id
           \<lparr>UniqueIDGenerator.next_id = 3, UniqueIDGenerator.used_ids = {0, 1, 2},
            UniqueIDGenerator.reclaimed_ids = []\<rparr> 1)) 0))))) = 0
   \<and> UniqueIDGenerator.next_id (snd (UniqueIDGenerator_get_id
        \<lparr>UniqueIDGenerator.next_id = 3, UniqueIDGenerator.used_ids = {0, 1, 2},
         UniqueIDGenerator.reclaimed_ids = []\<rparr>)) = 4"
  using
    unbounded_get_id_reuses_oldest_then_mints
      [of "\<lparr>IdGenerator.next_id = 3, IdGenerator.used_ids = {2},
             IdGenerator.reclaimed_ids = [1, 0]\<rparr>" 1 "[0]" 1 0
          "\<lparr>UniqueIDGenerator.next_id = 3, UniqueIDGenerator.used_ids = {2},
             UniqueIDGenerator.reclaimed_ids = [1, 0]\<rparr>"]
    unbounded_get_id_reuses_oldest_then_mints
      [of "\<lparr>IdGenerator.next_id = 3, IdGenerator.used_ids = {0, 1, 2},
             IdGenerator.reclaimed_ids = []\<rparr>" 1 "[0]" 1 0
          "\<lparr>UniqueIDGenerator.next_id = 3, UniqueIDGenerator.used_ids = {0, 1, 2},
             UniqueIDGenerator.reclaimed_ids = []\<rparr>"]
  by (auto simp: unsigned_int_max_def)

text \<open>
  With an empty queue, \<open>n\<close> calls of \<^verbatim>\<open>UniqueIDGenerator::get_id\<close> mint the next
  \<open>n\<close> values of the counter; nothing in the body looks at the maximum.
\<close>

lemma UniqueIDGenerator_get_ids_fresh:
  assumes "UniqueIDGenerator.reclaimed_ids u = []"
  shows "UniqueIDGenerator_get_ids n u =
     (map (\<lambda>k. UniqueIDGenerator.next_id u + of_nat k) [0..<n],
      u\<lparr>UniqueIDGenerator.next_id := UniqueIDGenerator.next_id u + of_nat n,
        UniqueIDGenerator.used_ids :=
          UniqueIDGenerator.used_ids u \<union> (\<lambda>k. UniqueIDGenerator.next_id u + of_nat k) ` {0..<n}\<rparr>)"
  using assms
proof (induction n arbitrary: u)
  case 0
  show ?case by simp
next
  case (Suc n)
  let ?w = "UniqueIDGenerator.next_id u"
  let ?u1 = "u\<lparr>UniqueIDGenerator.next_id := ?w + 1,
               UniqueIDGenerator.used_ids := insert ?w (UniqueIDGenerator.used_ids u)\<rparr>"
  have first: "UniqueIDGenerator_get_id u = (?w, ?u1)"
    using Suc.prems by (simp add: UniqueIDGenerator_get_id_fresh)
  have rest: "UniqueIDGenerator_get_ids n ?u1 =
     (map (\<lambda>k. ?w + 1 + of_nat k) [0..<n],
      ?u1\<lparr>UniqueIDGenerator.next_id := ?w + 1 + of_nat n,
        UniqueIDGenerator.used_ids :=
          insert ?w (UniqueIDGenerator.used_ids u) \<union> (\<lambda>k. ?w + 1 + of_nat k) ` {0..<n}\<rparr>)"
    using Suc.IH [of ?u1] Suc.prems by simp
  have list: "?w # map (\<lambda>k. ?w + 1 + of_nat k) [0..<n] = map (\<lambda>k. ?w + of_nat k) [0..<Suc n]"
  proof -
    have "[0..<Suc n] = 0 # map Suc [0..<n]"
      by (simp add: upt_conv_Cons map_Suc_upt del: upt_Suc)
    then show ?thesis
      by (simp add: o_def add.assoc del: upt_Suc)
  qed
  have image: "insert ?w (UniqueIDGenerator.used_ids u) \<union> (\<lambda>k. ?w + 1 + of_nat k) ` {0..<n}
      = UniqueIDGenerator.used_ids u \<union> (\<lambda>k. ?w + of_nat k) ` {0..<Suc n}"
  proof -
    have "{0..<Suc n} = insert 0 (Suc ` {0..<n})"
      by (auto simp: image_iff)
    then show ?thesis
      by (simp add: image_image add.assoc del: image_Suc_atLeastLessThan)
  qed
  show ?case
    using list image by (simp add: first rest add.assoc del: upt_Suc)
qed

lemma UniqueIDGenerator_run_to_last_below_max:
  "UniqueIDGenerator_get_ids 2147483646 UniqueIDGenerator_init =
     (map of_nat [0..<2147483646],
      \<lparr>UniqueIDGenerator.next_id = 2147483646,
       UniqueIDGenerator.used_ids = of_nat ` {0..<2147483646},
       UniqueIDGenerator.reclaimed_ids = []\<rparr>)"
  using UniqueIDGenerator_get_ids_fresh [of UniqueIDGenerator_init 2147483646]
  by (simp add: UniqueIDGenerator_init_def)

text \<open>
  C6, as it is stated, fails on \<^verbatim>\<open>UniqueIDGenerator\<close>: after 2147483646 calls of
  \<^verbatim>\<open>get_id\<close> on a new allocator the queue is empty and the counter is 2147483646; the
  next call returns 2147483646 and leaves the counter at 2147483647, the maximum of
  \<^verbatim>\<open>int\<close>, not at 0, and the call after that does not leave it at 0 either.
\<close>

theorem UniqueIDGenerator_no_wrap_counterexample:
  "UniqueIDGenerator.reclaimed_ids
      (snd (UniqueIDGenerator_get_ids 2147483646 UniqueIDGenerator_init)) = []
   \<and> UniqueIDGenerator.next_id
      (snd (UniqueIDGenerator_get_ids 2147483646 UniqueIDGenerator_init)) = 2147483646
   \<and> fst (UniqueIDGenerator_get_id
      (snd (UniqueIDGenerator_get_ids 2147483646 UniqueIDGenerator_init))) = 2147483646
   \<and> sint (UniqueIDGenerator.next_id (snd (UniqueIDGenerator_get_id
      (snd (UniqueIDGenerator_get_ids 2147483646 UniqueIDGenerator_init))))) = 2 ^ 31 - 1
   \<and> UniqueIDGenerator.next_id (snd (UniqueIDGenerator_get_id
      (snd (UniqueIDGenerator_get_ids 2147483646 UniqueIDGenerator_init)))) \<noteq> 0
   \<and> UniqueIDGenerator.next_id (snd (UniqueIDGenerator_get_id (snd (UniqueIDGenerator_get_id
      (snd (UniqueIDGenerator_get_ids 2147483646 UniqueIDGenerator_init)))))) \<noteq> 0"
  unfolding UniqueIDGenerator_run_to_last_below_max
  by (simp add: UniqueIDGenerator_get_id_fresh)

text \<open>
  C6, amended. In \<^verbatim>\<open>IdGenerator\<close>, a call of \<^verbatim>\<open>get_id\<close> that mints a fresh identifier and whose
  increment takes \<^verbatim>\<open>next_id\<close> to the maximum of \<^verbatim>\<open>unsigned int\<close> (or finds it there)
  returns the identifier as usual and leaves \<^verbatim>\<open>next_id\<close> at 0: the caller gets a value,
  no error. So a call never leaves \<^verbatim>\<open>next_id\<close> at the maximum unless it found it there.
\<close>

theorem IdGenerator_next_id_wraps_to_0:
  "(IdGenerator.reclaimed_ids g = []
      \<and> (IdGenerator.next_id g + 1 = unsigned_int_max \<or> IdGenerator.next_id g = unsigned_int_max)
    \<longrightarrow> IdGenerator_get_id g =
          (IdGenerator.next_id g,
           g\<lparr>IdGenerator.next_id := 0,
             IdGenerator.used_ids := insert (IdGenerator.next_id g) (IdGenerator.used_ids g)\<rparr>))
   \<and> (IdGenerator.next_id g \<noteq> unsigned_int_max \<longrightarrow>
        IdGenerator.next_id (snd (IdGenerator_get_id g)) \<noteq> unsigned_int_max)"
proof (cases "IdGenerator.reclaimed_ids g")
  case Nil
  then show ?thesis
    by (auto simp: IdGenerator_get_id_fresh unsigned_int_max_def)
next
  case (Cons x xs)
  then show ?thesis
    by (simp add: IdGenerator_get_id_pool)
qed

theorem IdGenerator_next_id_wraps_to_0_witness:
  "IdGenerator.reclaimed_ids (snd (IdGenerator_get_ids 4294967294 IdGenerator_init)) = []
   \<and> IdGenerator.next_id (snd (IdGenerator_get_ids 4294967294 IdGenerator_init)) + 1
       = unsigned_int_max
   \<and> IdGenerator_get_id (snd (IdGenerator_get_ids 4294967294 IdGenerator_init)) =
       (4294967294,
        \<lparr>IdGenerator.next_id = 0,
         IdGenerator.used_ids = insert 4294967294 (of_nat ` {0..<4294967294}),
         IdGenerator.reclaimed_ids = []\<rparr>)"
  using IdGenerator_next_id_wraps_to_0 [of "snd (IdGenerator_get_ids 4294967294 IdGenerator_init)"]
  unfolding IdGenerator_run_to_last_fresh
  by (simp add: unsigned_int_max_def)

text \<open>
  C7. \<^verbatim>\<open>get_id\<close> of the unbounded allocators returns an identifier from every state:
  the front of the queue when there is one, \<^verbatim>\<open>next_id\<close> otherwise, and the identifier
  is in the used set afterwards. \<^verbatim>\<open>IdGenerator::get_id\<close> has no \<^verbatim>\<open>throw\<close>; for
  \<^verbatim>\<open>UniqueIDGenerator\<close>, called through the base class whose \<^verbatim>\<open>get_id\<close> can throw in
  the bounded allocator, the outcome is always a value.
\<close>

theorem unbounded_get_id_always_returns:
  "(\<exists>i g'. IdGenerator_get_id g = (i, g') \<and> i \<in> IdGenerator.used_ids g'
        \<and> (IdGenerator.reclaimed_ids g \<noteq> [] \<and> i = hd (IdGenerator.reclaimed_ids g)
           \<or> IdGenerator.reclaimed_ids g = [] \<and> i = IdGenerator.next_id g))
   \<and> (\<exists>i u'. IDGenerator_get_id (Unique u) = (Inr i, Unique u')
        \<and> UniqueIDGenerator_get_id u = (i, u') \<and> i \<in> UniqueIDGenerator.used_ids u'
        \<and> (UniqueIDGenerator.reclaimed_ids u \<noteq> [] \<and> i = hd (UniqueIDGenerator.reclaimed_ids u)
           \<or> UniqueIDGenerator.reclaimed_ids u = [] \<and> i = UniqueIDGenerator.next_id u))"
  by (simp add: IdGenerator_get_id_def UniqueIDGenerator_get_id_def Let_def)

text \<open>
  C9. Reclaiming an identifier that is not in the used set: \<^verbatim>\<open>IdGenerator::reclaim_id\<close>
  (lenient) returns and leaves the allocator as it was; \<^verbatim>\<open>UniqueIDGenerator::reclaim_id\<close>
  (strict) throws \<open>InvalidReclaim\<close> and leaves the allocator as it was, so the sizes of
  the used set and of the queue too. Reclaiming an identifier that is in the used set takes
  it out of the used set and appends it to the queue, in both. So reclaiming an identifier
  a second time, or one that a new allocator never issued, does nothing in the lenient
  class and throws in the strict one.
\<close>

theorem unbounded_reclaim_id_lenient_and_strict:
  "(i \<notin> IdGenerator.used_ids g \<longrightarrow> IdGenerator_reclaim_id g i = g)
   \<and> (j \<notin> UniqueIDGenerator.used_ids u \<longrightarrow>
        UniqueIDGenerator_reclaim_id u j = (Inl InvalidReclaim, u)
        \<and> card (UniqueIDGenerator.used_ids (snd (UniqueIDGenerator_reclaim_id u j)))
            = card (UniqueIDGenerator.used_ids u)
        \<and> length (UniqueIDGenerator.reclaimed_ids (snd (UniqueIDGenerator_reclaim_id u j)))
            = length (UniqueIDGenerator.reclaimed_ids u))
   \<and> (i \<in> IdGenerator.used_ids g \<longrightarrow>
        IdGenerator_reclaim_id g i =
          g\<lparr>IdGenerator.used_ids := IdGenerator.used_ids g - {i},
            IdGenerator.reclaimed_ids := IdGenerator.reclaimed_ids g @ [i]\<rparr>)
   \<and> (j \<in> UniqueIDGenerator.used_ids u \<longrightarrow>
        UniqueIDGenerator_reclaim_id u j =
          (Inr (),
           u\<lparr>UniqueIDGenerator.used_ids := UniqueIDGenerator.used_ids u - {j},
             UniqueIDGenerator.reclaimed_ids := UniqueIDGenerator.reclaimed_ids u @ [j]\<rparr>))
   \<and> IdGenerator_reclaim_id (IdGenerator_reclaim_id g i) i = IdGenerator_reclaim_id g i
   \<and> UniqueIDGenerator_reclaim_id (snd (UniqueIDGenerator_reclaim_id u j)) j =
        (Inl InvalidReclaim, snd (UniqueIDGenerator_reclaim_id u j))
   \<and> IdGenerator_reclaim_id IdGenerator_init i = IdGenerator_init
   \<and> UniqueIDGenerator_reclaim_id UniqueIDGenerator_init j =
        (Inl InvalidReclaim, UniqueIDGenerator_init)"
proof -
  have lenient: "IdGenerator_reclaim_id g i =
      (if i \<in> IdGenerator.used_ids g
       then g\<lparr>IdGenerator.used_ids := IdGenerator.used_ids g - {i},
              IdGenerator.reclaimed_ids := IdGenerator.reclaimed_ids g @ [i]\<rparr>
       else g)" for g i
    by (simp add: IdGenerator_reclaim_id_def)
  have strict: "UniqueIDGenerator_reclaim_id u j =
      (if j \<in> UniqueIDGenerator.used_ids u
       then (Inr (),
             u\<lparr>UniqueIDGenerator.used_ids := UniqueIDGenerator.used_ids u - {j},
               UniqueIDGenerator.reclaimed_ids := UniqueIDGenerator.reclaimed_ids u @ [j]\<rparr>)
       else (Inl InvalidReclaim, u))" for u j
    by (simp add: UniqueIDGenerator_reclaim_id_def)
  have twice_lenient:
    "IdGenerator_reclaim_id (IdGenerator_reclaim_id g i) i = IdGenerator_reclaim_id g i"
    by (simp add: lenient)
  have twice_strict:
    "UniqueIDGenerator_reclaim_id (snd (UniqueIDGenerator_reclaim_id u j)) j =
        (Inl InvalidReclaim, snd (UniqueIDGenerator_reclaim_id u j))"
    by (simp add: strict)
  have never_issued:
    "IdGenerator_reclaim_id IdGenerator_init i = IdGenerator_init"
    "UniqueIDGenerator_reclaim_id UniqueIDGenerator_init j =
        (Inl InvalidReclaim, UniqueIDGenerator_init)"
    by (simp_all add: lenient strict IdGenerator_init_def UniqueIDGenerator_init_def)
  show ?thesis
    using twice_lenient twice_strict never_issued
    by (simp add: lenient [of g i] strict [of u j])
qed

theorem unbounded_reclaim_id_lenient_and_strict_witness:
  "IdGenerator_reclaim_id
     \<lparr>IdGenerator.next_id = 3, IdGenerator.used_ids = {0, 2}, IdGenerator.reclaimed_ids = [1]\<rparr> 1
   = \<lparr>IdGenerator.next_id = 3, IdGenerator.used_ids = {0, 2}, IdGenerator.reclaimed_ids = [1]\<rparr>
   \<and> IdGenerator_reclaim_id
     \<lparr>IdGenerator.next_id = 3, IdGenerator.used_ids = {0, 2}, IdGenerator.reclaimed_ids = [1]\<rparr> 2
   = \<lparr>IdGenerator.next_id = 3, IdGenerator.used_ids = {0}, IdGenerator.reclaimed_ids = [1, 2]\<rparr>
   \<and> UniqueIDGenerator_reclaim_id
     \<lparr>UniqueIDGenerator.next_id = 3, UniqueIDGenerator.used_ids = {0, 2},
      UniqueIDGenerator.reclaimed_ids = [1]\<rparr> 1
   = (Inl InvalidReclaim, \<lparr>UniqueIDGenerator.next_id = 3, UniqueIDGenerator.used_ids = {0, 2},
      UniqueIDGenerator.reclaimed_ids = [1]\<rparr>)
   \<and> UniqueIDGenerator_reclaim_id
     \<lparr>UniqueIDGenerator.next_id = 3, UniqueIDGenerator.used_ids = {0, 2},
      UniqueIDGenerator.reclaimed_ids = [1]\<rparr> 2
   = (Inr (), \<lparr>UniqueIDGenerator.next_id = 3, UniqueIDGenerator.used_ids = {0},
      UniqueIDGenerator.reclaimed_ids = [1, 2]\<rparr>)"
  using
    unbounded_reclaim_id_lenient_and_strict
      [of 1 "\<lparr>IdGenerator.next_id = 3, IdGenerator.used_ids = {0, 2},
               IdGenerator.reclaimed_ids = [1]\<rparr>"
          1 "\<lparr>UniqueIDGenerator.next_id = 3, UniqueIDGenerator.used_ids = {0, 2},
               UniqueIDGenerator.reclaimed_ids = [1]\<rparr>"]
    unbounded_reclaim_id_lenient_and_strict
      [of 2 "\<lparr>IdGenerator.next_id = 3, IdGenerator.used_ids = {0, 2},
               IdGenerator.reclaimed_ids = [1]\<rparr>"
          2 "\<lparr>UniqueIDGenerator.next_id = 3, UniqueIDGenerator.used_ids = {0, 2},
               UniqueIDGenerator.reclaimed_ids = [1]\<rparr>"]
  by auto


section \<open>The bounded allocator\<close>

text \<open>
  The loop of the constructor, entered with \<open>i\<close> at most \<^verbatim>\<open>max_value\<close>, appends
  \<open>i\<close>, \<open>i + 1\<close>, \<open>\<dots>\<close> up to \<^verbatim>\<open>max_value - 1\<close> to the queue; \<open>i\<close> never overflows.
\<close>

lemma constructor_loop_eq:
  "i \<le>s m \<Longrightarrow>
     constructor_loop i m q = q @ map (\<lambda>k. i + of_nat k) [0..<nat (sint m - sint i)]"
proof (induction i m q rule: constructor_loop.induct)
  case (1 i m q)
  show ?case
  proof (cases "i <s m")
    case True
    have succ: "sint (i + 1) = sint i + 1"
      using True by (rule sint_succ_below)
    have lt: "sint i < sint m"
      using True by (simp add: word_sless_alt)
    then have le: "i + 1 \<le>s m"
      using succ by (simp add: word_sle_eq)
    have count: "nat (sint m - sint i) = Suc (nat (sint m - sint (i + 1)))"
      using lt succ by simp
    have "constructor_loop i m q = constructor_loop (i + 1) m (q @ [i])"
      using True by (subst constructor_loop.simps) simp
    also have "\<dots> = (q @ [i]) @ map (\<lambda>k. i + 1 + of_nat k) [0..<nat (sint m - sint (i + 1))]"
      using True le by (rule "1.IH")
    also have "\<dots> = q @ map (\<lambda>k. i + of_nat k) [0..<nat (sint m - sint i)]"
    proof -
      have "[0..<Suc (nat (sint m - sint (i + 1)))] = 0 # map Suc [0..<nat (sint m - sint (i + 1))]"
        by (simp add: upt_conv_Cons map_Suc_upt del: upt_Suc)
      then show ?thesis
        unfolding count by (simp add: o_def add.assoc del: upt_Suc)
    qed
    finally show ?thesis .
  next
    case False
    then have "sint m - sint i \<le> 0"
      using "1.prems" by (simp add: word_sless_alt word_sle_eq)
    moreover have "constructor_loop i m q = q"
      using False by (subst constructor_loop.simps) simp
    ultimately show ?thesis by simp
  qed
qed

lemma constructor_loop_from_0:
  assumes "0 < sint C"
  shows "constructor_loop 0 C [] = map of_nat [0..<nat (sint C)]"
proof -
  have "0 \<le>s C"
    using assms by (simp add: word_sle_eq)
  then show ?thesis
    by (simp add: constructor_loop_eq)
qed

lemma BoundedUniqueIDGenerator_construct_3:
  "BoundedUniqueIDGenerator_construct 3 =
     Inr \<lparr>BoundedUniqueIDGenerator.max_value = 3, BoundedUniqueIDGenerator.next_id = 0,
          BoundedUniqueIDGenerator.available_ids = [0, 1, 2],
          BoundedUniqueIDGenerator.used_ids = {}\<rparr>"
  by (simp add: BoundedUniqueIDGenerator_construct_def constructor_loop.simps
      word_sless_alt word_sle_eq)

text \<open>
  C4. The constructor throws \<open>InvalidCapacity\<close> for a \<^verbatim>\<open>max_value\<close> of 0 or less, and
  then there is no allocator. For a positive \<^verbatim>\<open>max_value\<close> it builds the allocator whose
  queue holds \<open>0, 1, \<dots>, max_value - 1\<close> in ascending order and whose used set is empty.
\<close>

theorem BoundedUniqueIDGenerator_construct_validates_and_fills:
  "(sint C \<le> 0 \<longrightarrow> BoundedUniqueIDGenerator_construct C = Inl InvalidCapacity)
   \<and> (0 < sint C \<longrightarrow>
        (\<exists>g. BoundedUniqueIDGenerator_construct C = Inr g
           \<and> BoundedUniqueIDGenerator.max_value g = C
           \<and> BoundedUniqueIDGenerator.available_ids g = map of_nat [0..<nat (sint C)]
           \<and> map sint (BoundedUniqueIDGenerator.available_ids g) = map int [0..<nat (sint C)]
           \<and> BoundedUniqueIDGenerator.used_ids g = {}))"
proof -
  have "map sint (map of_nat [0..<nat (sint C)] :: c_int list) = map int [0..<nat (sint C)]"
    using below_capacity by (rule map_sint_of_nat)
  then show ?thesis
    by (simp add: BoundedUniqueIDGenerator_construct_def word_sle_eq constructor_loop_from_0)
qed

theorem BoundedUniqueIDGenerator_construct_validates_and_fills_witness:
  "BoundedUniqueIDGenerator_construct 0 = Inl InvalidCapacity
   \<and> BoundedUniqueIDGenerator_construct (- 5) = Inl InvalidCapacity
   \<and> (\<exists>g. BoundedUniqueIDGenerator_construct 3 = Inr g
         \<and> BoundedUniqueIDGenerator.max_value g = 3
         \<and> BoundedUniqueIDGenerator.available_ids g = [0, 1, 2]
         \<and> map sint (BoundedUniqueIDGenerator.available_ids g) = [0, 1, 2]
         \<and> BoundedUniqueIDGenerator.used_ids g = {})"
  using BoundedUniqueIDGenerator_construct_validates_and_fills [of 0]
    BoundedUniqueIDGenerator_construct_validates_and_fills [of "- 5"]
    BoundedUniqueIDGenerator_construct_validates_and_fills [of 3]
  by (simp add: upt_rec)

text \<open>
  C5. \<^verbatim>\<open>BoundedUniqueIDGenerator::reclaim_id\<close> throws \<open>InvalidReclaim\<close> exactly when
  the identifier is negative, or \<^verbatim>\<open>max_value\<close> or more, or not in the used set. When it
  throws, the allocator is as it was; when it does not, the identifier is out of the used
  set and at the back of the queue.
\<close>

theorem BoundedUniqueIDGenerator_reclaim_id_checks:
  "(fst (BoundedUniqueIDGenerator_reclaim_id g i) = Inl InvalidReclaim \<longleftrightarrow>
      sint i < 0 \<or> sint (BoundedUniqueIDGenerator.max_value g) \<le> sint i
      \<or> i \<notin> BoundedUniqueIDGenerator.used_ids g)
   \<and> (fst (BoundedUniqueIDGenerator_reclaim_id g i) = Inl InvalidReclaim \<longrightarrow>
        snd (BoundedUniqueIDGenerator_reclaim_id g i) = g)
   \<and> (fst (BoundedUniqueIDGenerator_reclaim_id g i) \<noteq> Inl InvalidReclaim \<longrightarrow>
        BoundedUniqueIDGenerator_reclaim_id g i =
          (Inr (),
           g\<lparr>BoundedUniqueIDGenerator.used_ids := BoundedUniqueIDGenerator.used_ids g - {i},
             BoundedUniqueIDGenerator.available_ids :=
               BoundedUniqueIDGenerator.available_ids g @ [i]\<rparr>))"
  by (simp add: BoundedUniqueIDGenerator_reclaim_id_def word_sless_alt word_sle_eq)

theorem BoundedUniqueIDGenerator_reclaim_id_checks_witness:
  "BoundedUniqueIDGenerator_reclaim_id
     \<lparr>BoundedUniqueIDGenerator.max_value = 3, BoundedUniqueIDGenerator.next_id = 0,
      BoundedUniqueIDGenerator.available_ids = [2],
      BoundedUniqueIDGenerator.used_ids = {0, 1}\<rparr> 1
   = (Inr (),
      \<lparr>BoundedUniqueIDGenerator.max_value = 3, BoundedUniqueIDGenerator.next_id = 0,
       BoundedUniqueIDGenerator.available_ids = [2, 1],
       BoundedUniqueIDGenerator.used_ids = {0}\<rparr>)
   \<and> BoundedUniqueIDGenerator_reclaim_id
     \<lparr>BoundedUniqueIDGenerator.max_value = 3, BoundedUniqueIDGenerator.next_id = 0,
      BoundedUniqueIDGenerator.available_ids = [2],
      BoundedUniqueIDGenerator.used_ids = {0, 1}\<rparr> 2
   = (Inl InvalidReclaim,
      \<lparr>BoundedUniqueIDGenerator.max_value = 3, BoundedUniqueIDGenerator.next_id = 0,
       BoundedUniqueIDGenerator.available_ids = [2],
       BoundedUniqueIDGenerator.used_ids = {0, 1}\<rparr>)
   \<and> BoundedUniqueIDGenerator_reclaim_id
     \<lparr>BoundedUniqueIDGenerator.max_value = 3, BoundedUniqueIDGenerator.next_id = 0,
      BoundedUniqueIDGenerator.available_ids = [2],
      BoundedUniqueIDGenerator.used_ids = {0, 1}\<rparr> (- 1)
   = (Inl InvalidReclaim,
      \<lparr>BoundedUniqueIDGenerator.max_value = 3, BoundedUniqueIDGenerator.next_id = 0,
       BoundedUniqueIDGenerator.available_ids = [2],
       BoundedUniqueIDGenerator.used_ids = {0, 1}\<rparr>)"
  using
    BoundedUniqueIDGenerator_reclaim_id_checks
      [of "\<lparr>BoundedUniqueIDGenerator.max_value = 3, BoundedUniqueIDGenerator.next_id = 0,
             BoundedUniqueIDGenerator.available_ids = [2],
             BoundedUniqueIDGenerator.used_ids = {0, 1}\<rparr>" 1]
    BoundedUniqueIDGenerator_reclaim_id_checks
      [of "\<lparr>BoundedUniqueIDGenerator.max_value = 3, BoundedUniqueIDGenerator.next_id = 0,
             BoundedUniqueIDGenerator.available_ids = [2],
             BoundedUniqueIDGenerator.used_ids = {0, 1}\<rparr>" 2]
    BoundedUniqueIDGenerator_reclaim_id_checks
      [of "\<lparr>BoundedUniqueIDGenerator.max_value = 3, BoundedUniqueIDGenerator.next_id = 0,
             BoundedUniqueIDGenerator.available_ids = [2],
             BoundedUniqueIDGenerator.used_ids = {0, 1}\<rparr>" "- 1"]
  by (auto simp: prod_eq_iff)

text \<open>
  While the queue has at least \<open>n\<close> identifiers, \<open>n\<close> calls of \<^verbatim>\<open>get_id\<close> return its
  first \<open>n\<close> in order and move them to the used set.
\<close>

lemma BoundedUniqueIDGenerator_get_ids_take:
  "n \<le> length (BoundedUniqueIDGenerator.available_ids g) \<Longrightarrow>
     BoundedUniqueIDGenerator_get_ids n g =
       (map Inr (take n (BoundedUniqueIDGenerator.available_ids g)),
        g\<lparr>BoundedUniqueIDGenerator.available_ids :=
             drop n (BoundedUniqueIDGenerator.available_ids g),
          BoundedUniqueIDGenerator.used_ids :=
             BoundedUniqueIDGenerator.used_ids g
               \<union> set (take n (BoundedUniqueIDGenerator.available_ids g))\<rparr>)"
proof (induction n arbitrary: g)
  case 0
  show ?case by simp
next
  case (Suc n)
  then obtain x xs where avail: "BoundedUniqueIDGenerator.available_ids g = x # xs"
    by (cases "BoundedUniqueIDGenerator.available_ids g") auto
  let ?g1 = "g\<lparr>BoundedUniqueIDGenerator.available_ids := xs,
               BoundedUniqueIDGenerator.used_ids := insert x (BoundedUniqueIDGenerator.used_ids g)\<rparr>"
  have first: "BoundedUniqueIDGenerator_get_id g = (Inr x, ?g1)"
    using avail by (simp add: BoundedUniqueIDGenerator_get_id_def Let_def)
  have "n \<le> length (BoundedUniqueIDGenerator.available_ids ?g1)"
    using Suc.prems avail by simp
  then have rest: "BoundedUniqueIDGenerator_get_ids n ?g1 =
       (map Inr (take n xs),
        ?g1\<lparr>BoundedUniqueIDGenerator.available_ids := drop n xs,
          BoundedUniqueIDGenerator.used_ids :=
             insert x (BoundedUniqueIDGenerator.used_ids g) \<union> set (take n xs)\<rparr>)"
    using Suc.IH [of ?g1] by simp
  show ?case
    by (simp add: first rest avail)
qed

text \<open>
  C1. A bounded allocator built with a capacity \<open>C\<close> of 1 or more: the first \<open>C\<close> calls
  of \<^verbatim>\<open>get_id\<close> all return a value, the \<open>C\<close> values are distinct and each is in
  \<open>[0, C)\<close>; the next call, with nothing reclaimed in between, throws
  \<open>CapacityExhausted\<close> and leaves the allocator as it was.
\<close>

theorem BoundedUniqueIDGenerator_exhaustion:
  assumes "0 < sint C"
  shows "\<exists>g ids g'.
      BoundedUniqueIDGenerator_construct C = Inr g
      \<and> BoundedUniqueIDGenerator_get_ids (nat (sint C)) g = (map Inr ids, g')
      \<and> length ids = nat (sint C)
      \<and> distinct ids
      \<and> (\<forall>i\<in>set ids. 0 \<le> sint i \<and> sint i < sint C)
      \<and> BoundedUniqueIDGenerator_get_id g' = (Inl CapacityExhausted, g')"
proof -
  let ?ids = "map of_nat [0..<nat (sint C)] :: c_int list"
  let ?g = "\<lparr>BoundedUniqueIDGenerator.max_value = C, BoundedUniqueIDGenerator.next_id = 0,
             BoundedUniqueIDGenerator.available_ids = ?ids,
             BoundedUniqueIDGenerator.used_ids = {}\<rparr>"
  let ?g' = "?g\<lparr>BoundedUniqueIDGenerator.available_ids := [],
               BoundedUniqueIDGenerator.used_ids := set ?ids\<rparr>"
  have built: "BoundedUniqueIDGenerator_construct C = Inr ?g"
    using assms
    by (simp add: BoundedUniqueIDGenerator_construct_def word_sle_eq constructor_loop_from_0)
  have "nat (sint C) \<le> length (BoundedUniqueIDGenerator.available_ids ?g)"
    by simp
  then have "BoundedUniqueIDGenerator_get_ids (nat (sint C)) ?g =
       (map Inr (take (nat (sint C)) (BoundedUniqueIDGenerator.available_ids ?g)),
        ?g\<lparr>BoundedUniqueIDGenerator.available_ids :=
             drop (nat (sint C)) (BoundedUniqueIDGenerator.available_ids ?g),
          BoundedUniqueIDGenerator.used_ids :=
             BoundedUniqueIDGenerator.used_ids ?g
               \<union> set (take (nat (sint C)) (BoundedUniqueIDGenerator.available_ids ?g))\<rparr>)"
    by (rule BoundedUniqueIDGenerator_get_ids_take)
  then have run: "BoundedUniqueIDGenerator_get_ids (nat (sint C)) ?g = (map Inr ?ids, ?g')"
    by simp
  have len: "length ?ids = nat (sint C)"
    by simp
  have dist: "distinct ?ids"
    using below_capacity distinct_upt by (rule distinct_map_of_nat)
  have range: "\<forall>i\<in>set ?ids. 0 \<le> sint i \<and> sint i < sint C"
  proof
    fix i
    assume "i \<in> set ?ids"
    then obtain k where k: "k < nat (sint C)" "i = of_nat k"
      by auto
    then have "k < 2147483648"
      using nat_sint_bound [of C] by simp
    then have "sint i = int k"
      using k by (simp add: sint_of_nat_small)
    then show "0 \<le> sint i \<and> sint i < sint C"
      using k by simp
  qed
  have exhausted: "BoundedUniqueIDGenerator_get_id ?g' = (Inl CapacityExhausted, ?g')"
    by (simp add: BoundedUniqueIDGenerator_get_id_def)
  show ?thesis
    using built run len dist range exhausted by blast
qed

theorem BoundedUniqueIDGenerator_exhaustion_witness:
  "0 < sint (3 :: c_int)
   \<and> (\<exists>g g'. BoundedUniqueIDGenerator_construct 3 = Inr g
        \<and> BoundedUniqueIDGenerator_get_ids 3 g = ([Inr 0, Inr 1, Inr 2], g')
        \<and> BoundedUniqueIDGenerator_get_id g' = (Inl CapacityExhausted, g'))"
proof -
  have pos: "0 < sint (3 :: c_int)"
    by simp
  obtain g ids g' where
    built: "BoundedUniqueIDGenerator_construct 3 = Inr g" and
    run: "BoundedUniqueIDGenerator_get_ids (nat (sint (3 :: c_int))) g = (map Inr ids, g')" and
    exhausted: "BoundedUniqueIDGenerator_get_id g' = (Inl CapacityExhausted, g')"
    using BoundedUniqueIDGenerator_exhaustion [OF pos] by blast
  have g: "g = \<lparr>BoundedUniqueIDGenerator.max_value = 3, BoundedUniqueIDGenerator.next_id = 0,
             BoundedUniqueIDGenerator.available_ids = [0, 1, 2],
             BoundedUniqueIDGenerator.used_ids = {}\<rparr>"
    using built by (simp add: BoundedUniqueIDGenerator_construct_3)
  have "BoundedUniqueIDGenerator_get_ids 3 g = ([Inr 0, Inr 1, Inr 2], g')"
    using run unfolding g
    by (simp add: numeral_3_eq_3 BoundedUniqueIDGenerator_get_id_def Let_def)
  then show ?thesis
    using pos built exhausted by blast
qed

text \<open>The constructor establishes what the calls keep, and every call keeps it.\<close>

lemma conserved_construct:
  assumes "BoundedUniqueIDGenerator_construct C = Inr g"
  shows "BoundedUniqueIDGenerator_conserved g \<and> BoundedUniqueIDGenerator.max_value g = C"
proof -
  have pos: "0 < sint C"
    using assms
    by (simp add: BoundedUniqueIDGenerator_construct_def word_sle_eq split: if_splits)
  then have g: "g = \<lparr>BoundedUniqueIDGenerator.max_value = C, BoundedUniqueIDGenerator.next_id = 0,
             BoundedUniqueIDGenerator.available_ids = map of_nat [0..<nat (sint C)],
             BoundedUniqueIDGenerator.used_ids = {}\<rparr>"
    using assms
    by (simp add: BoundedUniqueIDGenerator_construct_def word_sle_eq constructor_loop_from_0)
  have "distinct (map of_nat [0..<nat (sint C)] :: c_int list)"
    using below_capacity distinct_upt by (rule distinct_map_of_nat)
  then show ?thesis
    unfolding g by (simp add: BoundedUniqueIDGenerator_conserved_def)
qed

lemma conserved_get_id:
  assumes "BoundedUniqueIDGenerator_conserved g"
  shows "BoundedUniqueIDGenerator_conserved (snd (BoundedUniqueIDGenerator_get_id g))
    \<and> BoundedUniqueIDGenerator.max_value (snd (BoundedUniqueIDGenerator_get_id g))
        = BoundedUniqueIDGenerator.max_value g"
proof (cases "BoundedUniqueIDGenerator.available_ids g")
  case Nil
  then show ?thesis
    using assms by (simp add: BoundedUniqueIDGenerator_get_id_def)
next
  case (Cons x xs)
  then have "x \<notin> BoundedUniqueIDGenerator.used_ids g" "x \<notin> set xs"
    using assms by (auto simp: BoundedUniqueIDGenerator_conserved_def)
  then show ?thesis
    using assms Cons
    by (auto simp: BoundedUniqueIDGenerator_conserved_def BoundedUniqueIDGenerator_get_id_def Let_def)
qed

lemma conserved_reclaim_id:
  assumes "BoundedUniqueIDGenerator_conserved g"
  shows "BoundedUniqueIDGenerator_conserved (snd (BoundedUniqueIDGenerator_reclaim_id g i))
    \<and> BoundedUniqueIDGenerator.max_value (snd (BoundedUniqueIDGenerator_reclaim_id g i))
        = BoundedUniqueIDGenerator.max_value g"
proof (cases "fst (BoundedUniqueIDGenerator_reclaim_id g i) = Inl InvalidReclaim")
  case True
  then show ?thesis
    using assms by (auto simp: BoundedUniqueIDGenerator_reclaim_id_def split: if_splits)
next
  case False
  then have used: "i \<in> BoundedUniqueIDGenerator.used_ids g"
    by (simp add: BoundedUniqueIDGenerator_reclaim_id_def split: if_splits)
  then have fresh: "i \<notin> set (BoundedUniqueIDGenerator.available_ids g)"
    using assms by (auto simp: BoundedUniqueIDGenerator_conserved_def)
  have "finite (BoundedUniqueIDGenerator.used_ids g)"
    using assms by (simp add: BoundedUniqueIDGenerator_conserved_def)
  then have "0 < card (BoundedUniqueIDGenerator.used_ids g)"
    using used by (auto simp: card_gt_0_iff)
  then show ?thesis
    using assms used fresh
    by (auto simp: BoundedUniqueIDGenerator_conserved_def BoundedUniqueIDGenerator_reclaim_id_def)
qed

lemma conserved_calls:
  assumes "BoundedUniqueIDGenerator_conserved g"
  shows "BoundedUniqueIDGenerator_conserved (BoundedUniqueIDGenerator_calls g cs)
    \<and> BoundedUniqueIDGenerator.max_value (BoundedUniqueIDGenerator_calls g cs)
        = BoundedUniqueIDGenerator.max_value g"
  using assms
proof (induction cs arbitrary: g)
  case Nil
  then show ?case by (simp add: BoundedUniqueIDGenerator_calls_def)
next
  case (Cons c cs)
  have step: "BoundedUniqueIDGenerator_conserved (BoundedUniqueIDGenerator_call g c)
    \<and> BoundedUniqueIDGenerator.max_value (BoundedUniqueIDGenerator_call g c)
        = BoundedUniqueIDGenerator.max_value g"
    using Cons.prems conserved_get_id conserved_reclaim_id
    by (cases c) (simp_all add: BoundedUniqueIDGenerator_call_def)
  have "BoundedUniqueIDGenerator_calls g (c # cs)
      = BoundedUniqueIDGenerator_calls (BoundedUniqueIDGenerator_call g c) cs"
    by (simp add: BoundedUniqueIDGenerator_calls_def)
  then show ?case
    using Cons.IH [of "BoundedUniqueIDGenerator_call g c"] step by simp
qed

text \<open>
  C2. Take a bounded allocator as the constructor built it with capacity \<open>C\<close>, and any
  sequence of \<^verbatim>\<open>get_id\<close> and \<^verbatim>\<open>reclaim_id\<close> calls on it, failed calls included. In the
  allocator the sequence leaves, no identifier is both in the used set and in the queue,
  and the size of the used set plus the length of the queue is \<open>C\<close>. The sequence is any
  sequence, so this holds after each of its calls.
\<close>

theorem BoundedUniqueIDGenerator_conservation:
  assumes "BoundedUniqueIDGenerator_construct C = Inr g"
  shows "BoundedUniqueIDGenerator.used_ids (BoundedUniqueIDGenerator_calls g cs)
           \<inter> set (BoundedUniqueIDGenerator.available_ids (BoundedUniqueIDGenerator_calls g cs)) = {}
     \<and> card (BoundedUniqueIDGenerator.used_ids (BoundedUniqueIDGenerator_calls g cs))
         + length (BoundedUniqueIDGenerator.available_ids (BoundedUniqueIDGenerator_calls g cs))
       = nat (sint C)"
  using conserved_construct [OF assms] conserved_calls [of g cs]
  by (simp add: BoundedUniqueIDGenerator_conserved_def)

theorem BoundedUniqueIDGenerator_conservation_witness:
  "BoundedUniqueIDGenerator_construct 3 =
     Inr \<lparr>BoundedUniqueIDGenerator.max_value = 3, BoundedUniqueIDGenerator.next_id = 0,
          BoundedUniqueIDGenerator.available_ids = [0, 1, 2],
          BoundedUniqueIDGenerator.used_ids = {}\<rparr>
   \<and> BoundedUniqueIDGenerator_calls
        \<lparr>BoundedUniqueIDGenerator.max_value = 3, BoundedUniqueIDGenerator.next_id = 0,
          BoundedUniqueIDGenerator.available_ids = [0, 1, 2],
          BoundedUniqueIDGenerator.used_ids = {}\<rparr>
        [Get_id, Get_id, Reclaim_id 0, Reclaim_id 5, Get_id]
      = \<lparr>BoundedUniqueIDGenerator.max_value = 3, BoundedUniqueIDGenerator.next_id = 0,
          BoundedUniqueIDGenerator.available_ids = [0],
          BoundedUniqueIDGenerator.used_ids = {1, 2}\<rparr>
   \<and> {1, 2} \<inter> set [0 :: c_int] = {}
   \<and> card {1, 2 :: c_int} + length [0 :: c_int] = nat (sint (3 :: c_int))"
proof -
  have run: "BoundedUniqueIDGenerator_calls
        \<lparr>BoundedUniqueIDGenerator.max_value = 3, BoundedUniqueIDGenerator.next_id = 0,
          BoundedUniqueIDGenerator.available_ids = [0, 1, 2],
          BoundedUniqueIDGenerator.used_ids = {}\<rparr>
        [Get_id, Get_id, Reclaim_id 0, Reclaim_id 5, Get_id]
      = \<lparr>BoundedUniqueIDGenerator.max_value = 3, BoundedUniqueIDGenerator.next_id = 0,
          BoundedUniqueIDGenerator.available_ids = [0],
          BoundedUniqueIDGenerator.used_ids = {1, 2}\<rparr>"
    by (auto simp: BoundedUniqueIDGenerator_calls_def BoundedUniqueIDGenerator_call_def
        BoundedUniqueIDGenerator_get_id_def BoundedUniqueIDGenerator_reclaim_id_def Let_def
        word_sless_alt word_sle_eq)
  show ?thesis
    using BoundedUniqueIDGenerator_conservation [OF BoundedUniqueIDGenerator_construct_3,
        of "[Get_id, Get_id, Reclaim_id 0, Reclaim_id 5, Get_id]"]
    unfolding run using BoundedUniqueIDGenerator_construct_3 run by simp
qed

end
